theory Spec2Isabelle
  imports Main "HOL-Library.Word" "HOL-Library.Sublist"
begin

section \<open>The docker-proxy filter of \<^verbatim>\<open>pkg/process/dockerproxy/dockerproxy.go\<close>\<close>

subsection \<open>Data model\<close>

text \<open>
  Modelled from the spec: the type \<^verbatim>\<open>model.Addr\<close> is declared in another package. An
  address is an IP string and a port; the fields are the two the file reads and writes,
  \<^verbatim>\<open>Ip\<close> (a \<^verbatim>\<open>string\<close>) and \<^verbatim>\<open>Port\<close> (an \<^verbatim>\<open>int32\<close>, line 127).
\<close>

record Addr =
  Ip :: string
  Port :: "32 word"

text \<open>
  Modelled from the spec: the types \<^verbatim>\<open>model.Connection\<close> and \<^verbatim>\<open>model.Connections\<close> are
  declared in another package. A connection is an already-parsed record with the owning
  process identifier, a local and a remote address; the payload is the ordered sequence
  \<^verbatim>\<open>Conns\<close> of connections, the one field of it the file touches.
\<close>

record Connection =
  Pid :: "32 word"
  Laddr :: Addr
  Raddr :: Addr

record Connections =
  Conns :: "Connection list"

text \<open>
  Modelled from the spec: the type \<^verbatim>\<open>process.FilledProcess\<close> is declared in another
  package. Process metadata is the process identifier and the command line, an ordered
  sequence of strings.
\<close>

record FilledProcess =
  Pid :: "32 word"
  Cmdline :: "string list"

text \<open>\<^verbatim>\<open>type proxy struct { pid int32; ip string; target model.Addr }\<close>\<close>

record proxy =
  pid :: "32 word"
  ip :: string
  target :: Addr

text \<open>
  \<^verbatim>\<open>type Filter struct\<close> (the name \<open>Filter\<close> is kept for its method below). Both
  maps hold pointers (\<^verbatim>\<open>*proxy\<close>), and
  \<^verbatim>\<open>discoverProxyIP\<close> writes through such a pointer, so the records live in an explicit
  store: \<open>heap\<close> is the list of all \<^verbatim>\<open>proxy\<close> objects allocated so far, a pointer is
  an index into it, and the two maps send a key to a pointer.
\<close>

record Filter_rec =
  heap :: "proxy list"
  proxyByPID :: "32 word \<rightharpoonup> nat"
  proxyByTarget :: "Addr \<rightharpoonup> nat"

text \<open>A registry whose pointers all refer to allocated objects, as every Go pointer does.\<close>

definition wf_Filter :: "Filter_rec \<Rightarrow> bool" where
  "wf_Filter f \<longleftrightarrow>
     (\<forall>k a. proxyByPID f k = Some a \<longrightarrow> a < length (heap f)) \<and>
     (\<forall>t a. proxyByTarget f t = Some a \<longrightarrow> a < length (heap f))"

subsection \<open>Library functions the file calls\<close>

text \<open>
  Modelled from the spec: \<^verbatim>\<open>strings.EndsWith\<close> (line 112) is not defined in the file. The
  first argument "ends with" the executable name: the suffix test
  \<^verbatim>\<open>len(s) >= len(suffix) && s[len(s)-len(suffix):] == suffix\<close>.
\<close>

definition EndsWith :: "string \<Rightarrow> string \<Rightarrow> bool" where
  "EndsWith s suf \<longleftrightarrow> length suf \<le> length s \<and> drop (length s - length suf) s = suf"

text \<open>
  \<^verbatim>\<open>strconv.Atoi\<close> of the Go standard library, on a platform with 64-bit \<^verbatim>\<open>int\<close>: an
  optional sign \<^verbatim>\<open>+\<close> or \<^verbatim>\<open>-\<close>, then one or more decimal digits, and the value must
  lie between \<open>- 2 ^ 63\<close> and \<open>2 ^ 63 - 1\<close>; anything else is an error (\<open>None\<close>).
\<close>

definition digit_of :: "char \<Rightarrow> nat option" where
  "digit_of c = (let n = (of_char c :: nat) in if 48 \<le> n \<and> n \<le> 57 then Some (n - 48) else None)"

fun digits_val :: "nat \<Rightarrow> string \<Rightarrow> nat option" where
  "digits_val n [] = Some n"
| "digits_val n (c # cs) =
     (case digit_of c of None \<Rightarrow> None | Some d \<Rightarrow> digits_val (n * 10 + d) cs)"

definition Atoi :: "string \<Rightarrow> int option" where
  "Atoi s =
     (case s of [] \<Rightarrow> None
      | c # rest \<Rightarrow>
          (let neg = (c = CHR ''-'');
               ds = (if c = CHR ''-'' \<or> c = CHR ''+'' then rest else s)
           in if ds = [] then None
              else case digits_val 0 ds of
                     None \<Rightarrow> None
                   | Some n \<Rightarrow>
                       if neg then (if n \<le> 2 ^ 63 then Some (- int n) else None)
                       else (if n < 2 ^ 63 then Some (int n) else None)))"

subsection \<open>Detection: \<^verbatim>\<open>extractProxyInfo\<close>\<close>

text \<open>
  Line 131 is \<^verbatim>\<open>proxy.target.Ip == "" || proxy.target.Ip == 0\<close>: its second disjunct
  compares the string field \<^verbatim>\<open>Ip\<close> with the integer literal \<^verbatim>\<open>0\<close>. No string is the
  integer zero, so this disjunct never holds; the port is not tested.
\<close>

definition Ip_eq_zero :: "string \<Rightarrow> bool" where
  "Ip_eq_zero s \<longleftrightarrow> False"

text \<open>
  The loop of lines 118 to 129, \<^verbatim>\<open>for i := 0; i < len(p.Cmdline)-1; i++\<close>, run on the
  part of the command line from index \<open>i\<close> on: \<open>a\<close> is \<^verbatim>\<open>Cmdline[i]\<close> (line 119
  writes \<^verbatim>\<open>p.Cmdline(i)\<close> for it) and \<open>b\<close> is \<^verbatim>\<open>Cmdline[i+1]\<close>; the last argument
  is never read as a flag. \<open>None\<close> is the \<^verbatim>\<open>return nil\<close> of line 125.
\<close>

fun scanArgs :: "string list \<Rightarrow> proxy \<Rightarrow> proxy option" where
  "scanArgs (a # b # rest) px =
     (if a = ''-container-ip'' then
        scanArgs (b # rest) (px\<lparr>target := (target px)\<lparr>Ip := b\<rparr>\<rparr>)
      else if a = ''-container-port'' then
        (case Atoi b of
           None \<Rightarrow> None
         | Some port \<Rightarrow> scanArgs (b # rest) (px\<lparr>target := (target px)\<lparr>Port := word_of_int port\<rparr>\<rparr>))
      else scanArgs (b # rest) px)"
| "scanArgs _ px = Some px"

definition extractProxyInfo :: "FilledProcess \<Rightarrow> proxy option" where
  "extractProxyInfo p =
     (if length (Cmdline p) = 0 \<or> \<not> EndsWith (Cmdline p ! 0) ''docker-proxy'' then None
      else
        case scanArgs (Cmdline p) \<lparr>pid = FilledProcess.Pid p, ip = [], target = \<lparr>Ip = [], Port = 0\<rparr>\<rparr> of
          None \<Rightarrow> None
        | Some px \<Rightarrow>
            if Ip (target px) = [] \<or> Ip_eq_zero (Ip (target px)) then None else Some px)"

subsection \<open>The registry: \<^verbatim>\<open>NewFilter\<close> and \<^verbatim>\<open>LoadProxies\<close>\<close>

definition emptyFilter :: Filter_rec where
  "emptyFilter = \<lparr>heap = [], proxyByPID = Map.empty, proxyByTarget = Map.empty\<rparr>"

text \<open>
  Lines 56 and 57 for one detected proxy: the new object is allocated at the end of the
  store and both maps are pointed at it.
\<close>

definition addProxy :: "Filter_rec \<Rightarrow> proxy \<Rightarrow> Filter_rec" where
  "addProxy f px =
     f\<lparr>heap := heap f @ [px],
       proxyByPID := (proxyByPID f)(pid px \<mapsto> length (heap f)),
       proxyByTarget := (proxyByTarget f)(target px \<mapsto> length (heap f))\<rparr>"

text \<open>
  \<^verbatim>\<open>LoadProxies\<close> ranges over a Go map, which visits every entry once in an order
  the language leaves open; the list is the entries in the order of the visit.
\<close>

fun LoadProxies :: "Filter_rec \<Rightarrow> FilledProcess list \<Rightarrow> Filter_rec" where
  "LoadProxies f [] = f"
| "LoadProxies f (p # ps) =
     (case extractProxyInfo p of
        None \<Rightarrow> LoadProxies f ps
      | Some px \<Rightarrow> LoadProxies (addProxy f px) ps)"

text \<open>
  \<^verbatim>\<open>NewFilter\<close>; the argument is what \<^verbatim>\<open>process.AllProcesses()\<close> returned, \<open>Inl\<close>
  an error (which is logged), \<open>Inr\<close> the processes.
\<close>

definition NewFilter :: "string + FilledProcess list \<Rightarrow> Filter_rec" where
  "NewFilter res = (case res of Inr procs \<Rightarrow> LoadProxies emptyFilter procs | Inl err \<Rightarrow> emptyFilter)"

subsection \<open>Filtering: \<^verbatim>\<open>discoverProxyIP\<close>, \<^verbatim>\<open>isProxied\<close>, \<^verbatim>\<open>Filter\<close>\<close>

text \<open>\<^verbatim>\<open>discoverProxyIP(p, c)\<close>, with \<open>a\<close> the pointer \<^verbatim>\<open>p\<close>.\<close>

definition discoverProxyIP :: "Filter_rec \<Rightarrow> nat \<Rightarrow> Connection \<Rightarrow> Filter_rec" where
  "discoverProxyIP f a c =
     (let p = heap f ! a in
      if Ip (Laddr c) = Ip (target p) \<and> Port (Laddr c) = Port (target p) then
        f\<lparr>heap := (heap f)[a := p\<lparr>ip := Ip (Raddr c)\<rparr>]\<rparr>
      else if Ip (Raddr c) = Ip (target p) \<and> Port (Raddr c) = Port (target p) then
        f\<lparr>heap := (heap f)[a := p\<lparr>ip := Ip (Laddr c)\<rparr>]\<rparr>
      else f)"

definition isProxied :: "Filter_rec \<Rightarrow> Connection \<Rightarrow> bool" where
  "isProxied f c =
     (case proxyByTarget f \<lparr>Ip = Ip (Laddr c), Port = Port (Laddr c)\<rparr> of
        Some a \<Rightarrow> ip (heap f ! a) = Ip (Raddr c)
      | None \<Rightarrow>
          (case proxyByTarget f \<lparr>Ip = Ip (Raddr c), Port = Port (Raddr c)\<rparr> of
             Some a \<Rightarrow> ip (heap f ! a) = Ip (Laddr c)
           | None \<Rightarrow> False))"

text \<open>Lines 67 to 72: the lookup by pid and the discovery for a proxy whose ip is empty.\<close>

definition discover :: "Filter_rec \<Rightarrow> Connection \<Rightarrow> Filter_rec" where
  "discover f c =
     (case proxyByPID f (Connection.Pid c) of
        Some a \<Rightarrow> if ip (heap f ! a) = [] then discoverProxyIP f a c else f
      | None \<Rightarrow> f)"

text \<open>
  The loop of lines 66 to 80 over the connections still to visit, with the registry and
  the slice \<^verbatim>\<open>filtered\<close> built so far.
\<close>

fun filterLoop :: "Filter_rec \<Rightarrow> Connection list \<Rightarrow> Connection list \<Rightarrow> Filter_rec \<times> Connection list" where
  "filterLoop f [] filtered = (f, filtered)"
| "filterLoop f (c # cs) filtered =
     (let f' = discover f c in
      if isProxied f' c then filterLoop f' cs filtered
      else filterLoop f' cs (filtered @ [c]))"

text \<open>\<^verbatim>\<open>Filter\<close>: the registry and the payload after the call.\<close>

definition Filter :: "Filter_rec \<Rightarrow> Connections \<Rightarrow> Filter_rec \<times> Connections" where
  "Filter f payload =
     (let original = Conns payload;
          (f', filtered) = filterLoop f original []
      in (f', payload\<lparr>Conns := filtered\<rparr>))"

subsection \<open>Derived notions and the examples of the specification\<close>

text \<open>The records detection yields for a snapshot, in the order of the visit.\<close>

definition detected :: "FilledProcess list \<Rightarrow> proxy list" where
  "detected procs = List.map_filter extractProxyInfo procs"

text \<open>
  The process of the detection example, the registry a load of it gives (observed IP
  unknown), and the registry of the end-to-end example (observed IP 172.17.0.2).
\<close>

definition ex_target :: Addr where
  "ex_target = \<lparr>Ip = ''10.0.0.5'', Port = 80\<rparr>"

definition ex_proc :: FilledProcess where
  "ex_proc = \<lparr>FilledProcess.Pid = 100,
     Cmdline = [''/usr/bin/docker-proxy'', ''-container-ip'', ''10.0.0.5'', ''-container-port'', ''80'']\<rparr>"

definition ex_rec :: proxy where
  "ex_rec = \<lparr>pid = 100, ip = [], target = ex_target\<rparr>"

text \<open>The same process with the port argument \<^verbatim>\<open>-80\<close>.\<close>

definition ex_neg_proc :: FilledProcess where
  "ex_neg_proc = \<lparr>FilledProcess.Pid = 100,
     Cmdline = [''/usr/bin/docker-proxy'', ''-container-ip'', ''10.0.0.5'', ''-container-port'', ''-80'']\<rparr>"

text \<open>
  A second proxy process with the same target and another pid, and a third with another
  target and another pid.
\<close>

definition ex_proc_same :: FilledProcess where
  "ex_proc_same = \<lparr>FilledProcess.Pid = 200,
     Cmdline = [''/usr/bin/docker-proxy'', ''-container-port'', ''80'', ''-container-ip'', ''10.0.0.5'']\<rparr>"

definition ex_rec_same :: proxy where
  "ex_rec_same = \<lparr>pid = 200, ip = [], target = ex_target\<rparr>"

definition ex_proc_other :: FilledProcess where
  "ex_proc_other = \<lparr>FilledProcess.Pid = 300,
     Cmdline = [''/usr/bin/docker-proxy'', ''-container-ip'', ''10.0.0.6'', ''-container-port'', ''443'']\<rparr>"

definition ex_rec_other :: proxy where
  "ex_rec_other = \<lparr>pid = 300, ip = [], target = \<lparr>Ip = ''10.0.0.6'', Port = 443\<rparr>\<rparr>"

definition ex_unknown :: Filter_rec where
  "ex_unknown = LoadProxies emptyFilter [ex_proc]"

definition ex_known :: Filter_rec where
  "ex_known = \<lparr>heap = [\<lparr>pid = 100, ip = ''172.17.0.2'', target = ex_target\<rparr>],
     proxyByPID = [100 \<mapsto> 0], proxyByTarget = [ex_target \<mapsto> 0]\<rparr>"

definition conn_a :: Connection where
  "conn_a = \<lparr>Connection.Pid = 100, Laddr = \<lparr>Ip = ''172.17.0.2'', Port = 54321\<rparr>, Raddr = ex_target\<rparr>"

definition conn_b :: Connection where
  "conn_b = \<lparr>Connection.Pid = 7, Laddr = ex_target, Raddr = \<lparr>Ip = ''172.17.0.2'', Port = 54321\<rparr>\<rparr>"

definition conn_c :: Connection where
  "conn_c = \<lparr>Connection.Pid = 7, Laddr = ex_target, Raddr = \<lparr>Ip = ''8.8.8.8'', Port = 443\<rparr>\<rparr>"






text \<open>
  Proof devices for the filtering pass. \<open>learns f f'\<close>: the registry \<open>f'\<close> is \<open>f\<close>
  with some unknown observed IPs made known and nothing else changed. \<open>inferred p c\<close>:
  the IP that \<^verbatim>\<open>discoverProxyIP\<close> writes for the record \<open>p\<close> and the connection
  \<open>c\<close>, if it writes one. \<open>set_ip f a v\<close>: the assignment \<^verbatim>\<open>p.ip = v\<close> through the
  pointer \<open>a\<close>.
\<close>

definition learns :: "Filter_rec \<Rightarrow> Filter_rec \<Rightarrow> bool" where
  "learns f f' \<longleftrightarrow>
     proxyByPID f' = proxyByPID f \<and> proxyByTarget f' = proxyByTarget f \<and>
     length (heap f') = length (heap f) \<and>
     (\<forall>a < length (heap f).
        heap f' ! a = heap f ! a \<or> (ip (heap f ! a) = [] \<and> ip (heap f' ! a) \<noteq> []))"

definition inferred :: "proxy \<Rightarrow> Connection \<Rightarrow> string option" where
  "inferred p c =
     (if Ip (Laddr c) = Ip (target p) \<and> Port (Laddr c) = Port (target p) then Some (Ip (Raddr c))
      else if Ip (Raddr c) = Ip (target p) \<and> Port (Raddr c) = Port (target p) then Some (Ip (Laddr c))
      else None)"

definition set_ip :: "Filter_rec \<Rightarrow> nat \<Rightarrow> string \<Rightarrow> Filter_rec" where
  "set_ip f a v = f\<lparr>heap := (heap f)[a := (heap f ! a)\<lparr>ip := v\<rparr>]\<rparr>"

section \<open>Properties\<close>

lemmas detection_defs =
  extractProxyInfo_def EndsWith_def Atoi_def digit_of_def Ip_eq_zero_def

lemmas example_defs =
  ex_target_def ex_proc_def ex_rec_def ex_neg_proc_def ex_proc_same_def ex_rec_same_def
  ex_proc_other_def ex_rec_other_def ex_unknown_def ex_known_def conn_a_def conn_b_def conn_c_def
  emptyFilter_def addProxy_def


subsection \<open>Detection\<close>

lemma EndsWith_suffix: "EndsWith s suf \<longleftrightarrow> suffix suf s"
proof
  assume "EndsWith s suf"
  then have "s = take (length s - length suf) s @ suf"
    by (metis EndsWith_def append_take_drop_id)
  then show "suffix suf s"
    by (metis suffixI)
next
  assume "suffix suf s"
  then obtain pre where "s = pre @ suf"
    by (auto simp: suffix_def)
  then show "EndsWith s suf"
    by (simp add: EndsWith_def)
qed

lemma EndsWith_not_flag:
  "EndsWith s ''docker-proxy'' \<Longrightarrow> s \<noteq> ''-container-ip'' \<and> s \<noteq> ''-container-port''"
  by (auto simp: EndsWith_def)

lemma scanArgs_pid_ip: "scanArgs xs px = Some r \<Longrightarrow> pid r = pid px \<and> ip r = ip px"
  by (induction xs px rule: scanArgs.induct) (auto split: if_splits option.splits)

lemma scanArgs_no_ip_flag:
  "''-container-ip'' \<notin> set (butlast xs) \<Longrightarrow> scanArgs xs px = Some r \<Longrightarrow>
   Ip (target r) = Ip (target px)"
  by (induction xs px rule: scanArgs.induct) (auto split: if_splits option.splits)

lemma scanArgs_bad_port:
  "i + 1 < length xs \<Longrightarrow> xs ! i = ''-container-port'' \<Longrightarrow> Atoi (xs ! (i + 1)) = None \<Longrightarrow>
   scanArgs xs px = None"
proof (induction xs px arbitrary: i rule: scanArgs.induct)
  case (1 a b rest px)
  show ?case
  proof (cases i)
    case 0
    with "1.prems" show ?thesis by simp
  next
    case (Suc j)
    with "1.prems" have j: "j + 1 < length (b # rest)" "(b # rest) ! j = ''-container-port''"
      "Atoi ((b # rest) ! (j + 1)) = None"
      by simp_all
    show ?thesis
      using "1.IH"(1) [OF _ j] "1.IH"(2) [OF _ _ _ j] "1.IH"(3) [OF _ _ j]
      by (simp split: option.splits)
  qed
qed simp_all

lemma scanArgs_no_port_flag:
  "''-container-port'' \<notin> set (butlast xs) \<Longrightarrow> scanArgs xs px = Some r \<Longrightarrow>
   Port (target r) = Port (target px)"
  by (induction xs px rule: scanArgs.induct) (auto split: if_splits option.splits)

lemma no_flag_after:
  assumes "\<forall>j. 0 < j \<and> j + 1 < length (a # ys) \<longrightarrow> (a # ys) ! j \<noteq> x"
  shows "x \<notin> set (butlast ys)"
proof
  assume "x \<in> set (butlast ys)"
  then obtain k where k: "k < length (butlast ys)" "butlast ys ! k = x"
    by (auto simp: in_set_conv_nth)
  then have "k + 1 < length ys" "ys ! k = x"
    by (simp_all add: nth_butlast)
  with assms [rule_format, of "Suc k"] show False
    by simp
qed

lemma scanArgs_last_port:
  "i + 1 < length xs \<Longrightarrow> xs ! i = ''-container-port'' \<Longrightarrow>
   \<forall>j. i < j \<and> j + 1 < length xs \<longrightarrow> xs ! j \<noteq> ''-container-port'' \<Longrightarrow>
   scanArgs xs px = Some r \<Longrightarrow>
   \<exists>n. Atoi (xs ! (i + 1)) = Some n \<and> Port (target r) = word_of_int n"
proof (induction xs px arbitrary: i rule: scanArgs.induct)
  case (1 a b rest px)
  show ?case
  proof (cases i)
    case 0
    with "1.prems" have a: "a = ''-container-port''"
      by simp
    from "1.prems"(3) 0 have nf: "''-container-port'' \<notin> set (butlast (b # rest))"
      using no_flag_after [of a "b # rest" "''-container-port''"] by simp
    from "1.prems"(4) a obtain n where n: "Atoi b = Some n"
      and s: "scanArgs (b # rest) (px\<lparr>target := (target px)\<lparr>Port := word_of_int n\<rparr>\<rparr>) = Some r"
      by (auto split: option.splits)
    from scanArgs_no_port_flag [OF nf s] n 0 show ?thesis
      by simp
  next
    case (Suc j)
    with "1.prems" have j: "j + 1 < length (b # rest)" "(b # rest) ! j = ''-container-port''"
      by simp_all
    have l: "\<forall>k. j < k \<and> k + 1 < length (b # rest) \<longrightarrow> (b # rest) ! k \<noteq> ''-container-port''"
    proof (intro allI impI)
      fix k
      assume "j < k \<and> k + 1 < length (b # rest)"
      with "1.prems"(3) [rule_format, of "Suc k"] Suc
      show "(b # rest) ! k \<noteq> ''-container-port''"
        by simp
    qed
    show ?thesis
      using "1.IH"(1) [OF _ j l] "1.IH"(2) [OF _ _ _ j l] "1.IH"(3) [OF _ _ j l] "1.prems"(4) Suc
      by (auto split: option.splits if_splits)
  qed
qed simp_all

lemma extractProxyInfo_Some:
  assumes "extractProxyInfo p = Some r"
  shows "Cmdline p \<noteq> []" and "EndsWith (hd (Cmdline p)) ''docker-proxy''"
    and "scanArgs (Cmdline p) \<lparr>pid = FilledProcess.Pid p, ip = [], target = \<lparr>Ip = [], Port = 0\<rparr>\<rparr> = Some r"
    and "Ip (target r) \<noteq> []"
  using assms
  by (auto simp: extractProxyInfo_def hd_conv_nth split: if_splits option.splits)

lemma digits_val_non_digit:
  "c \<in> set ds \<Longrightarrow> digit_of c = None \<Longrightarrow> digits_val n ds = None"
  by (induction ds arbitrary: n) (auto split: option.splits)

lemma Atoi_non_digit:
  assumes "c \<in> set s" and "digit_of c = None" and "c \<noteq> CHR ''-''" and "c \<noteq> CHR ''+''"
  shows "Atoi s = None"
proof (cases s)
  case Nil
  then show ?thesis by (simp add: Atoi_def)
next
  case (Cons c0 rest)
  show ?thesis
  proof (cases "c0 = CHR ''-'' \<or> c0 = CHR ''+''")
    case True
    with assms Cons have "c \<in> set rest"
      by auto
    from digits_val_non_digit [OF this assms(2), of 0] Cons True show ?thesis
      by (auto simp: Atoi_def Let_def)
  next
    case False
    from digits_val_non_digit [OF assms(1,2), of 0] Cons False show ?thesis
      by (simp add: Atoi_def Let_def)
  qed
qed

text \<open>
  C9. The command line \<^verbatim>\<open>[".../docker-proxy", "-container-ip", "10.0.0.5",
  "-container-port", "80"]\<close> (any path before the executable name) yields a record with
  target 10.0.0.5, port 80. A command line that is empty or whose first argument does
  not end with \<^verbatim>\<open>docker-proxy\<close>, one in which \<^verbatim>\<open>-container-ip\<close> does not occur, and one
  in which some \<^verbatim>\<open>-container-port\<close> is followed by a value that \<^verbatim>\<open>strconv.Atoi\<close> rejects
  (by \<open>Atoi_non_digit\<close> every value with a character other than a digit and a sign is
  one) yield no record.
\<close>

theorem extractProxyInfo_detection:
  "extractProxyInfo \<lparr>FilledProcess.Pid = n,
      Cmdline = [dir @ ''docker-proxy'', ''-container-ip'', ''10.0.0.5'', ''-container-port'', ''80'']\<rparr>
     = Some \<lparr>pid = n, ip = [], target = \<lparr>Ip = ''10.0.0.5'', Port = 80\<rparr>\<rparr> \<and>
   (Cmdline p = [] \<or> \<not> suffix ''docker-proxy'' (hd (Cmdline p)) \<longrightarrow> extractProxyInfo p = None) \<and>
   (''-container-ip'' \<notin> set (Cmdline p) \<longrightarrow> extractProxyInfo p = None) \<and>
   (i + 1 < length (Cmdline p) \<and> Cmdline p ! i = ''-container-port'' \<and>
      Atoi (Cmdline p ! (i + 1)) = None \<longrightarrow> extractProxyInfo p = None)"
proof (intro conjI impI)
  have e: "EndsWith (dir @ ''docker-proxy'') ''docker-proxy''"
    by (simp add: EndsWith_def)
  have a: "Atoi ''80'' = Some 80"
    by (simp add: Atoi_def digit_of_def)
  show "extractProxyInfo \<lparr>FilledProcess.Pid = n,
      Cmdline = [dir @ ''docker-proxy'', ''-container-ip'', ''10.0.0.5'', ''-container-port'', ''80'']\<rparr>
     = Some \<lparr>pid = n, ip = [], target = \<lparr>Ip = ''10.0.0.5'', Port = 80\<rparr>\<rparr>"
    using EndsWith_not_flag [OF e] by (simp add: extractProxyInfo_def e a Ip_eq_zero_def)
next
  assume "Cmdline p = [] \<or> \<not> suffix ''docker-proxy'' (hd (Cmdline p))"
  then show "extractProxyInfo p = None"
    by (auto simp: extractProxyInfo_def EndsWith_suffix hd_conv_nth)
next
  assume "''-container-ip'' \<notin> set (Cmdline p)"
  then have nf: "''-container-ip'' \<notin> set (butlast (Cmdline p))"
    by (auto dest: in_set_butlastD)
  show "extractProxyInfo p = None"
  proof (cases "extractProxyInfo p")
    case (Some r)
    from scanArgs_no_ip_flag [OF nf extractProxyInfo_Some(3) [OF Some]]
      extractProxyInfo_Some(4) [OF Some]
    show ?thesis by simp
  qed simp
next
  assume "i + 1 < length (Cmdline p) \<and> Cmdline p ! i = ''-container-port'' \<and>
      Atoi (Cmdline p ! (i + 1)) = None"
  then show "extractProxyInfo p = None"
    using scanArgs_bad_port [of i "Cmdline p"] by (simp add: extractProxyInfo_def)
qed

theorem extractProxyInfo_detection_witness:
  "extractProxyInfo \<lparr>FilledProcess.Pid = 1, Cmdline = [''/usr/bin/dockerd'', ''-container-ip'', ''10.0.0.5'']\<rparr> = None \<and>
   extractProxyInfo \<lparr>FilledProcess.Pid = 2, Cmdline = [''docker-proxy'', ''-container-port'', ''80'']\<rparr> = None \<and>
   extractProxyInfo \<lparr>FilledProcess.Pid = 3,
     Cmdline = [''docker-proxy'', ''-container-ip'', ''10.0.0.5'', ''-container-port'', ''http'']\<rparr> = None"
  using
    extractProxyInfo_detection [of _ _ "\<lparr>FilledProcess.Pid = 1, Cmdline = [''/usr/bin/dockerd'', ''-container-ip'', ''10.0.0.5'']\<rparr>"]
    extractProxyInfo_detection [of _ _ "\<lparr>FilledProcess.Pid = 2, Cmdline = [''docker-proxy'', ''-container-port'', ''80'']\<rparr>"]
    extractProxyInfo_detection [of _ _ "\<lparr>FilledProcess.Pid = 3,
     Cmdline = [''docker-proxy'', ''-container-ip'', ''10.0.0.5'', ''-container-port'', ''http'']\<rparr>" 3]
  by (simp add: suffix_def Atoi_def digit_of_def)

text \<open>
  C2, as amended. Detection returns a record only for a command line whose scan sets a
  non-empty target IP and in which every \<^verbatim>\<open>-container-port\<close> value parses under
  \<^verbatim>\<open>strconv.Atoi\<close>; the record carries the pid of the process, an empty observed IP, and
  as port the \<^verbatim>\<open>int32\<close> truncation of the last such value, whatever its sign.
\<close>

theorem extractProxyInfo_record:
  assumes "extractProxyInfo p = Some r"
  shows "pid r = FilledProcess.Pid p \<and> ip r = [] \<and> Ip (target r) \<noteq> [] \<and>
    (\<forall>i. i + 1 < length (Cmdline p) \<and> Cmdline p ! i = ''-container-port'' \<longrightarrow>
       (\<exists>n. Atoi (Cmdline p ! (i + 1)) = Some n)) \<and>
    (\<forall>i. i + 1 < length (Cmdline p) \<and> Cmdline p ! i = ''-container-port'' \<and>
         (\<forall>j. i < j \<and> j + 1 < length (Cmdline p) \<longrightarrow> Cmdline p ! j \<noteq> ''-container-port'') \<longrightarrow>
       (\<exists>n. Atoi (Cmdline p ! (i + 1)) = Some n \<and> Port (target r) = word_of_int n))"
proof (intro conjI allI impI)
  note s = extractProxyInfo_Some(3) [OF assms]
  show "pid r = FilledProcess.Pid p" "ip r = []"
    using scanArgs_pid_ip [OF s] by simp_all
  show "Ip (target r) \<noteq> []"
    by (rule extractProxyInfo_Some(4) [OF assms])
  fix i
  {
    assume "i + 1 < length (Cmdline p) \<and> Cmdline p ! i = ''-container-port''"
    then show "\<exists>n. Atoi (Cmdline p ! (i + 1)) = Some n"
      using scanArgs_bad_port [of i "Cmdline p"] s by (cases "Atoi (Cmdline p ! (i + 1))") auto
  }
  {
    assume "i + 1 < length (Cmdline p) \<and> Cmdline p ! i = ''-container-port'' \<and>
         (\<forall>j. i < j \<and> j + 1 < length (Cmdline p) \<longrightarrow> Cmdline p ! j \<noteq> ''-container-port'')"
    then show "\<exists>n. Atoi (Cmdline p ! (i + 1)) = Some n \<and> Port (target r) = word_of_int n"
      using scanArgs_last_port [of i "Cmdline p" _ r] s by blast
  }
qed

text \<open>
  The claim C2 as stated fails: the port argument \<^verbatim>\<open>-80\<close> parses, to a negative
  integer, and detection returns a record whose port is negative.
\<close>

theorem extractProxyInfo_negative_port_counterexample:
  "Atoi ''-80'' = Some (- 80) \<and>
   extractProxyInfo ex_neg_proc =
     Some \<lparr>pid = 100, ip = [], target = \<lparr>Ip = ''10.0.0.5'', Port = - 80\<rparr>\<rparr> \<and>
   sint (- 80 :: 32 word) < 0"
  by (simp add: ex_neg_proc_def detection_defs)

theorem extractProxyInfo_record_witness:
  "extractProxyInfo ex_proc = Some ex_rec \<and>
   3 + 1 < length (Cmdline ex_proc) \<and> Cmdline ex_proc ! 3 = ''-container-port'' \<and>
   Ip (target ex_rec) \<noteq> [] \<and>
   (\<exists>n. Atoi (Cmdline ex_proc ! (3 + 1)) = Some n \<and> Port (target ex_rec) = word_of_int n)"
proof -
  have h: "extractProxyInfo ex_proc = Some ex_rec"
    by (simp add: example_defs detection_defs)
  have l: "3 + 1 < length (Cmdline ex_proc) \<and> Cmdline ex_proc ! 3 = ''-container-port'' \<and>
    (\<forall>j. 3 < j \<and> j + 1 < length (Cmdline ex_proc) \<longrightarrow> Cmdline ex_proc ! j \<noteq> ''-container-port'')"
    by (simp add: ex_proc_def)
  from extractProxyInfo_record [OF h] l
  have "Ip (target ex_rec) \<noteq> [] \<and>
    (\<exists>n. Atoi (Cmdline ex_proc ! (3 + 1)) = Some n \<and> Port (target ex_rec) = word_of_int n)"
    by blast
  with h l show ?thesis
    by blast
qed

subsection \<open>Loading\<close>

lemma LoadProxies_append:
  "LoadProxies f (ps @ qs) = LoadProxies (LoadProxies f ps) qs"
  by (induction ps arbitrary: f) (simp_all split: option.splits)

lemma LoadProxies_snoc:
  "LoadProxies f (ps @ [p]) =
     (case extractProxyInfo p of None \<Rightarrow> LoadProxies f ps
      | Some px \<Rightarrow> addProxy (LoadProxies f ps) px)"
  by (simp add: LoadProxies_append split: option.splits)

lemma detected_Nil: "detected [] = []"
  by (simp add: detected_def map_filter_simps)

lemma detected_snoc:
  "detected (ps @ [p]) =
     detected ps @ (case extractProxyInfo p of None \<Rightarrow> [] | Some px \<Rightarrow> [px])"
  by (simp add: detected_def map_filter_def split: option.splits)

lemma detected_pid:
  "map pid (detected ps) = map FilledProcess.Pid (filter (\<lambda>p. extractProxyInfo p \<noteq> None) ps)"
proof (induction ps)
  case Nil
  show ?case by (simp add: detected_def map_filter_simps)
next
  case (Cons p ps)
  show ?case
  proof (cases "extractProxyInfo p")
    case None
    with Cons show ?thesis by (simp add: detected_def map_filter_simps)
  next
    case (Some r)
    have "pid r = FilledProcess.Pid p"
      using scanArgs_pid_ip [OF extractProxyInfo_Some(3) [OF Some]] by simp
    with Cons Some show ?thesis by (simp add: detected_def map_filter_simps)
  qed
qed

lemma heap_LoadProxies: "heap (LoadProxies f ps) = heap f @ detected ps"
proof (induction ps rule: rev_induct)
  case Nil
  show ?case by (simp add: detected_Nil)
next
  case (snoc p ps)
  then show ?case
    by (simp add: LoadProxies_snoc detected_snoc addProxy_def split: option.splits)
qed

lemma proxyByPID_LoadProxies_other:
  "k \<notin> pid ` set (detected ps) \<Longrightarrow> proxyByPID (LoadProxies f ps) k = proxyByPID f k"
proof (induction ps rule: rev_induct)
  case Nil
  show ?case by simp
next
  case (snoc p ps)
  then show ?case
    by (auto simp: LoadProxies_snoc detected_snoc addProxy_def split: option.splits)
qed

lemma proxyByTarget_LoadProxies_other:
  "t \<notin> target ` set (detected ps) \<Longrightarrow> proxyByTarget (LoadProxies f ps) t = proxyByTarget f t"
proof (induction ps rule: rev_induct)
  case Nil
  show ?case by simp
next
  case (snoc p ps)
  then show ?case
    by (auto simp: LoadProxies_snoc detected_snoc addProxy_def split: option.splits)
qed

lemma proxyByPID_LoadProxies_detected:
  "r \<in> set (detected ps) \<Longrightarrow>
   \<exists>a. proxyByPID (LoadProxies f ps) (pid r) = Some a \<and> a < length (heap (LoadProxies f ps)) \<and>
       heap (LoadProxies f ps) ! a = last (filter (\<lambda>x. pid x = pid r) (detected ps))"
proof (induction ps rule: rev_induct)
  case Nil
  then show ?case by (simp add: detected_Nil)
next
  case (snoc p ps)
  show ?case
  proof (cases "extractProxyInfo p")
    case None
    with snoc show ?thesis
      by (simp add: LoadProxies_snoc detected_snoc)
  next
    case (Some px)
    show ?thesis
    proof (cases "pid px = pid r")
      case True
      with Some show ?thesis
        by (simp add: LoadProxies_snoc detected_snoc addProxy_def)
    next
      case False
      with Some snoc.prems have "r \<in> set (detected ps)"
        by (auto simp: detected_snoc)
      from snoc.IH [OF this] False Some show ?thesis
        by (auto simp: LoadProxies_snoc detected_snoc addProxy_def nth_append)
    qed
  qed
qed

lemma proxyByTarget_LoadProxies_detected:
  "r \<in> set (detected ps) \<Longrightarrow>
   \<exists>a. proxyByTarget (LoadProxies f ps) (target r) = Some a \<and> a < length (heap (LoadProxies f ps)) \<and>
       heap (LoadProxies f ps) ! a = last (filter (\<lambda>x. target x = target r) (detected ps))"
proof (induction ps rule: rev_induct)
  case Nil
  then show ?case by (simp add: detected_Nil)
next
  case (snoc p ps)
  show ?case
  proof (cases "extractProxyInfo p")
    case None
    with snoc show ?thesis
      by (simp add: LoadProxies_snoc detected_snoc)
  next
    case (Some px)
    show ?thesis
    proof (cases "target px = target r")
      case True
      with Some show ?thesis
        by (simp add: LoadProxies_snoc detected_snoc addProxy_def)
    next
      case False
      with Some snoc.prems have "r \<in> set (detected ps)"
        by (auto simp: detected_snoc)
      from snoc.IH [OF this] False Some show ?thesis
        by (auto simp: LoadProxies_snoc detected_snoc addProxy_def nth_append)
    qed
  qed
qed

lemma filter_distinct_key:
  "distinct (map g xs) \<Longrightarrow> r \<in> set xs \<Longrightarrow> filter (\<lambda>x. g x = g r) xs = [r]"
proof (induction xs)
  case Nil
  then show ?case by simp
next
  case (Cons x xs)
  show ?case
  proof (cases "x = r")
    case True
    with Cons.prems have "\<forall>y\<in>set xs. g y \<noteq> g r"
      by (auto simp: image_iff)
    then have "filter (\<lambda>x. g x = g r) xs = []"
      by (simp add: filter_empty_conv)
    with True show ?thesis by simp
  next
    case False
    with Cons.prems have "r \<in> set xs" "g x \<noteq> g r"
      by (auto simp: image_iff)
    with Cons show ?thesis by simp
  qed
qed

lemma detected_distinct_pid:
  "distinct (map FilledProcess.Pid procs) \<Longrightarrow> distinct (map pid (detected procs))"
  by (simp add: detected_pid distinct_map_filter)


lemma dom_addProxy:
  "dom (proxyByPID (addProxy f px)) = insert (pid px) (dom (proxyByPID f))"
  "dom (proxyByTarget (addProxy f px)) = insert (target px) (dom (proxyByTarget f))"
  by (simp_all add: addProxy_def)

lemma dom_proxyByPID_LoadProxies:
  "dom (proxyByPID (LoadProxies f ps)) = dom (proxyByPID f) \<union> pid ` set (detected ps)"
proof (induction ps rule: rev_induct)
  case Nil
  show ?case by (simp add: detected_Nil)
next
  case (snoc p ps)
  then show ?case
    by (cases "extractProxyInfo p") (simp_all add: LoadProxies_snoc detected_snoc dom_addProxy)
qed

lemma dom_proxyByTarget_LoadProxies:
  "dom (proxyByTarget (LoadProxies f ps)) = dom (proxyByTarget f) \<union> target ` set (detected ps)"
proof (induction ps rule: rev_induct)
  case Nil
  show ?case by (simp add: detected_Nil)
next
  case (snoc p ps)
  then show ?case
    by (cases "extractProxyInfo p") (simp_all add: LoadProxies_snoc detected_snoc dom_addProxy)
qed

text \<open>
  C7. After a load, every record \<open>r\<close> that detection produced for the snapshot is found
  in the pid index under its pid and in the target index under its target: the pid index
  holds the record processed last among those with the pid of \<open>r\<close>, which is \<open>r\<close>
  itself when the processes of the snapshot have distinct pids (they are the keys of a
  map), and the target index holds the record processed last among those with the target
  of \<open>r\<close>. So of two detected processes with distinct pids and one target, both stay
  retrievable by pid and the target index holds the one processed last.
\<close>

theorem LoadProxies_two_indexes:
  assumes "r \<in> set (detected procs)"
  shows
    "(\<exists>a. proxyByPID (LoadProxies f procs) (pid r) = Some a \<and>
          a < length (heap (LoadProxies f procs)) \<and>
          heap (LoadProxies f procs) ! a = last (filter (\<lambda>x. pid x = pid r) (detected procs))) \<and>
     (\<exists>b. proxyByTarget (LoadProxies f procs) (target r) = Some b \<and>
          b < length (heap (LoadProxies f procs)) \<and>
          target (heap (LoadProxies f procs) ! b) = target r \<and>
          heap (LoadProxies f procs) ! b = last (filter (\<lambda>x. target x = target r) (detected procs))) \<and>
     (distinct (map FilledProcess.Pid procs) \<longrightarrow>
        (\<exists>a. proxyByPID (LoadProxies f procs) (pid r) = Some a \<and>
          a < length (heap (LoadProxies f procs)) \<and> heap (LoadProxies f procs) ! a = r))"
proof (intro conjI impI)
  show "\<exists>a. proxyByPID (LoadProxies f procs) (pid r) = Some a \<and>
          a < length (heap (LoadProxies f procs)) \<and>
          heap (LoadProxies f procs) ! a = last (filter (\<lambda>x. pid x = pid r) (detected procs))"
    by (rule proxyByPID_LoadProxies_detected [OF assms])
next
  from assms have ne: "filter (\<lambda>x. target x = target r) (detected procs) \<noteq> []"
    by (auto simp: filter_empty_conv)
  have "last (filter (\<lambda>x. target x = target r) (detected procs))
          \<in> set (filter (\<lambda>x. target x = target r) (detected procs))"
    by (rule last_in_set [OF ne])
  then have "target (last (filter (\<lambda>x. target x = target r) (detected procs))) = target r"
    by simp
  with proxyByTarget_LoadProxies_detected [OF assms, of f]
  show "\<exists>b. proxyByTarget (LoadProxies f procs) (target r) = Some b \<and>
          b < length (heap (LoadProxies f procs)) \<and>
          target (heap (LoadProxies f procs) ! b) = target r \<and>
          heap (LoadProxies f procs) ! b = last (filter (\<lambda>x. target x = target r) (detected procs))"
    by auto
next
  assume "distinct (map FilledProcess.Pid procs)"
  then have "filter (\<lambda>x. pid x = pid r) (detected procs) = [r]"
    using filter_distinct_key [OF detected_distinct_pid assms] by simp
  with proxyByPID_LoadProxies_detected [OF assms, of f]
  show "\<exists>a. proxyByPID (LoadProxies f procs) (pid r) = Some a \<and>
          a < length (heap (LoadProxies f procs)) \<and> heap (LoadProxies f procs) ! a = r"
    by simp
qed

lemma detected_two_examples: "detected [ex_proc, ex_proc_same] = [ex_rec, ex_rec_same]"
  by (simp add: detected_def map_filter_simps example_defs detection_defs)

theorem LoadProxies_two_indexes_witness:
  "ex_rec \<in> set (detected [ex_proc, ex_proc_same]) \<and>
   distinct (map FilledProcess.Pid [ex_proc, ex_proc_same]) \<and>
   target ex_rec_same = target ex_rec \<and>
   (\<exists>a. proxyByPID (LoadProxies emptyFilter [ex_proc, ex_proc_same]) (pid ex_rec) = Some a \<and>
        heap (LoadProxies emptyFilter [ex_proc, ex_proc_same]) ! a = ex_rec) \<and>
   (\<exists>b. proxyByTarget (LoadProxies emptyFilter [ex_proc, ex_proc_same]) (target ex_rec) = Some b \<and>
        heap (LoadProxies emptyFilter [ex_proc, ex_proc_same]) ! b = ex_rec_same)"
proof -
  have m: "ex_rec \<in> set (detected [ex_proc, ex_proc_same])"
    by (simp add: detected_two_examples)
  have d: "distinct (map FilledProcess.Pid [ex_proc, ex_proc_same])"
    by (simp add: ex_proc_def ex_proc_same_def)
  have t: "target ex_rec_same = target ex_rec"
    by (simp add: ex_rec_def ex_rec_same_def)
  have l: "last (filter (\<lambda>x. target x = target ex_rec) (detected [ex_proc, ex_proc_same])) = ex_rec_same"
    by (simp add: detected_two_examples t)
  from LoadProxies_two_indexes [OF m, of emptyFilter] d l m t show ?thesis
    by auto
qed

text \<open>
  C1, as amended. A load only adds and overwrites: a pid (a target) that detection does
  not produce for the new snapshot keeps the entry it had, the records allocated before
  stay as they were, and the keys of each index after the load are the keys before it
  together with the detected ones. Only a registry built anew by \<^verbatim>\<open>NewFilter\<close> holds
  entries for the proxies of its snapshot alone.
\<close>

theorem LoadProxies_keeps_entries:
  "(k \<notin> pid ` set (detected procs) \<longrightarrow>
      proxyByPID (LoadProxies f procs) k = proxyByPID f k) \<and>
   (t \<notin> target ` set (detected procs) \<longrightarrow>
      proxyByTarget (LoadProxies f procs) t = proxyByTarget f t) \<and>
   (a < length (heap f) \<longrightarrow> heap (LoadProxies f procs) ! a = heap f ! a) \<and>
   dom (proxyByPID (LoadProxies f procs)) = dom (proxyByPID f) \<union> pid ` set (detected procs) \<and>
   dom (proxyByTarget (LoadProxies f procs)) =
     dom (proxyByTarget f) \<union> target ` set (detected procs) \<and>
   dom (proxyByPID (NewFilter (Inr procs))) = pid ` set (detected procs) \<and>
   dom (proxyByTarget (NewFilter (Inr procs))) = target ` set (detected procs)"
  by (simp add: proxyByPID_LoadProxies_other proxyByTarget_LoadProxies_other heap_LoadProxies
      nth_append dom_proxyByPID_LoadProxies dom_proxyByTarget_LoadProxies NewFilter_def
      emptyFilter_def)

lemma detected_other: "detected [ex_proc_other] = [ex_rec_other]"
  by (simp add: detected_def map_filter_simps example_defs detection_defs)

lemma ex_unknown_eq:
  "ex_unknown = \<lparr>heap = [ex_rec], proxyByPID = [100 \<mapsto> 0], proxyByTarget = [ex_target \<mapsto> 0]\<rparr>"
  by (simp add: example_defs detection_defs)

theorem LoadProxies_keeps_entries_witness:
  "100 \<notin> pid ` set (detected [ex_proc_other]) \<and>
   ex_target \<notin> target ` set (detected [ex_proc_other]) \<and>
   0 < length (heap ex_unknown) \<and>
   proxyByPID (LoadProxies ex_unknown [ex_proc_other]) 100 = Some 0 \<and>
   proxyByTarget (LoadProxies ex_unknown [ex_proc_other]) ex_target = Some 0 \<and>
   heap (LoadProxies ex_unknown [ex_proc_other]) ! 0 = ex_rec"
  using LoadProxies_keeps_entries [of 100 "[ex_proc_other]" ex_unknown ex_target 0]
  by (simp add: detected_other ex_unknown_eq ex_rec_other_def ex_target_def)

text \<open>
  The claim C1 as stated fails: after the load of a snapshot whose only proxy has pid 300
  and another target, the record of pid 100 from the earlier load is still retrievable
  by pid and by target.
\<close>

theorem LoadProxies_replaces_counterexample:
  "proxyByPID ex_unknown 100 = Some 0 \<and> heap ex_unknown ! 0 = ex_rec \<and>
   detected [ex_proc_other] = [ex_rec_other] \<and> pid ex_rec_other \<noteq> 100 \<and>
   target ex_rec_other \<noteq> ex_target \<and>
   proxyByPID (LoadProxies ex_unknown [ex_proc_other]) 100 = Some 0 \<and>
   proxyByTarget (LoadProxies ex_unknown [ex_proc_other]) ex_target = Some 0 \<and>
   heap (LoadProxies ex_unknown [ex_proc_other]) ! 0 = ex_rec"
  by (simp add: detected_other ex_unknown_eq)
    (simp add: example_defs detection_defs)

subsection \<open>The filtering pass\<close>

lemma filterLoop_acc:
  "filterLoop f cs acc = (fst (filterLoop f cs []), acc @ snd (filterLoop f cs []))"
proof (induction cs arbitrary: f acc)
  case Nil
  show ?case by simp
next
  case (Cons c cs)
  show ?case
    using Cons.IH [of "discover f c" "acc"] Cons.IH [of "discover f c" "acc @ [c]"]
      Cons.IH [of "discover f c" "[c]"]
    by (simp add: Let_def)
qed

lemma filterLoop_subseq: "subseq (snd (filterLoop f cs [])) cs"
proof (induction cs arbitrary: f)
  case Nil
  show ?case by simp
next
  case (Cons c cs)
  have acc: "snd (filterLoop (discover f c) cs [c]) = c # snd (filterLoop (discover f c) cs [])"
    using filterLoop_acc [of "discover f c" cs "[c]"] by simp
  show ?case
    using Cons.IH [of "discover f c"] by (auto simp: Let_def acc)
qed

text \<open>
  C6. For every registry and every batch, \<^verbatim>\<open>Filter\<close> returns (the model has no error
  branch: the source has none), and the connections it leaves in the payload are a
  subsequence of the input: each kept connection is an input connection, unchanged, in
  the input's relative order; the dropped ones are absent.
\<close>

theorem Filter_subseq:
  "\<exists>f' out. Filter f payload = (f', payload\<lparr>Conns := out\<rparr>) \<and> subseq out (Conns payload)"
proof -
  obtain f' out where r: "filterLoop f (Conns payload) [] = (f', out)"
    by (cases "filterLoop f (Conns payload) []")
  have "subseq out (Conns payload)"
    using filterLoop_subseq [of f "Conns payload"] r by simp
  then show ?thesis
    using r by (auto simp: Filter_def)
qed

text \<open>
  C4. A connection is classified as proxied exactly when the target formed from its local
  address and port is in the target index and that record's observed IP is the
  connection's remote IP, or the local-side target has no record, the target formed from
  the remote address and port is in the target index, and that record's observed IP is the
  connection's local IP.
\<close>

theorem isProxied_iff:
  "isProxied f c \<longleftrightarrow>
     (\<exists>a. proxyByTarget f \<lparr>Ip = Ip (Laddr c), Port = Port (Laddr c)\<rparr> = Some a \<and>
          ip (heap f ! a) = Ip (Raddr c)) \<or>
     (proxyByTarget f \<lparr>Ip = Ip (Laddr c), Port = Port (Laddr c)\<rparr> = None \<and>
      (\<exists>a. proxyByTarget f \<lparr>Ip = Ip (Raddr c), Port = Port (Raddr c)\<rparr> = Some a \<and>
           ip (heap f ! a) = Ip (Laddr c)))"
  by (auto simp: isProxied_def split: option.splits)

text \<open>
  Example (c) of the specification: the local end is the known target, the remote IP is
  not the proxy's observed IP, and the connection is not proxied.
\<close>

theorem isProxied_iff_witness:
  "\<not> isProxied ex_known conn_c \<and> isProxied ex_known conn_b \<and> isProxied ex_known conn_a"
  using isProxied_iff [of ex_known conn_c] isProxied_iff [of ex_known conn_b]
    isProxied_iff [of ex_known conn_a]
  by (simp add: example_defs)

lemma discover_no_pid: "proxyByPID f = Map.empty \<Longrightarrow> discover f c = f"
  by (simp add: discover_def)

lemma isProxied_no_target: "proxyByTarget f = Map.empty \<Longrightarrow> \<not> isProxied f c"
  by (simp add: isProxied_def)

lemma filterLoop_empty:
  "proxyByPID f = Map.empty \<Longrightarrow> proxyByTarget f = Map.empty \<Longrightarrow>
   filterLoop f cs acc = (f, acc @ cs)"
  by (induction cs arbitrary: acc) (simp_all add: discover_no_pid isProxied_no_target)

text \<open>
  C8. With a registry that holds no proxy (both indexes empty), \<^verbatim>\<open>Filter\<close> returns the
  payload as it was (same connections, same order, same length) and the registry as it
  was (no observed IP is written).
\<close>

theorem Filter_empty_registry:
  "proxyByPID f = Map.empty \<Longrightarrow> proxyByTarget f = Map.empty \<Longrightarrow> Filter f payload = (f, payload)"
  by (simp add: Filter_def filterLoop_empty)

theorem Filter_empty_registry_witness:
  "proxyByPID emptyFilter = Map.empty \<and> proxyByTarget emptyFilter = Map.empty \<and>
   Filter emptyFilter \<lparr>Conns = [conn_a, conn_b, conn_c]\<rparr> =
     (emptyFilter, \<lparr>Conns = [conn_a, conn_b, conn_c]\<rparr>)"
  using Filter_empty_registry [of emptyFilter "\<lparr>Conns = [conn_a, conn_b, conn_c]\<rparr>"]
  by (simp add: emptyFilter_def)

lemma discoverProxyIP_inferred:
  "discoverProxyIP f a c = (case inferred (heap f ! a) c of None \<Rightarrow> f | Some v \<Rightarrow> set_ip f a v)"
  by (simp add: discoverProxyIP_def inferred_def set_ip_def Let_def)

lemma discover_inferred:
  "discover f c =
     (case proxyByPID f (Connection.Pid c) of
        None \<Rightarrow> f
      | Some a \<Rightarrow>
          if ip (heap f ! a) = [] then
            (case inferred (heap f ! a) c of None \<Rightarrow> f | Some v \<Rightarrow> set_ip f a v)
          else f)"
  by (simp add: discover_def discoverProxyIP_inferred split: option.splits)

lemma ip_update_same: "ip p = v \<Longrightarrow> p\<lparr>ip := v\<rparr> = p"
  by auto

lemma set_ip_same: "length (heap f) \<le> a \<or> ip (heap f ! a) = v \<Longrightarrow> set_ip f a v = f"
  by (auto simp: set_ip_def ip_update_same list_update_beyond)

lemma learns_refl: "learns f f"
  by (simp add: learns_def)

lemma learns_trans:
  assumes "learns f g" and "learns g h"
  shows "learns f h"
proof -
  have "heap h ! a = heap f ! a \<or> (ip (heap f ! a) = [] \<and> ip (heap h ! a) \<noteq> [])"
    if a: "a < length (heap f)" for a
  proof -
    from assms a have 1: "heap g ! a = heap f ! a \<or> (ip (heap f ! a) = [] \<and> ip (heap g ! a) \<noteq> [])"
      and 2: "heap h ! a = heap g ! a \<or> (ip (heap g ! a) = [] \<and> ip (heap h ! a) \<noteq> [])"
      by (simp_all add: learns_def)
    then show ?thesis
      by auto
  qed
  with assms show ?thesis
    by (simp add: learns_def)
qed

lemma set_ip_learns:
  assumes "ip (heap f ! a) = []"
  shows "learns f (set_ip f a v)"
proof (cases "v = []")
  case True
  with assms show ?thesis
    by (simp add: set_ip_same learns_refl)
next
  case False
  have "heap (set_ip f a v) ! b = heap f ! b \<or> (ip (heap f ! b) = [] \<and> ip (heap (set_ip f a v) ! b) \<noteq> [])"
    if "b < length (heap f)" for b
    using that assms False by (cases "b = a") (simp_all add: set_ip_def)
  then show ?thesis
    by (simp add: learns_def set_ip_def)
qed

lemma discover_learns: "learns f (discover f c)"
  by (simp add: discover_inferred learns_refl set_ip_learns split: option.splits)

lemma filterLoop_learns: "learns f (fst (filterLoop f cs acc))"
proof (induction cs arbitrary: f acc)
  case Nil
  show ?case by (simp add: learns_refl)
next
  case (Cons c cs)
  show ?case
    using learns_trans [OF discover_learns [of f c] Cons.IH [of "discover f c"]]
    by (simp add: Let_def)
qed

lemma filterLoop_stable:
  "\<forall>c\<in>set cs. discover f c = f \<Longrightarrow>
   filterLoop f cs acc = (f, acc @ filter (\<lambda>c. \<not> isProxied f c) cs)"
  by (induction cs arbitrary: acc) simp_all

lemma discover_again:
  assumes l: "learns (discover f c) h"
  shows "discover h c = h"
proof (cases "proxyByPID f (Connection.Pid c)")
  case None
  with l have "proxyByPID h (Connection.Pid c) = None"
    using discover_learns [of f c] by (simp add: learns_def)
  then show ?thesis by (simp add: discover_def)
next
  case (Some a)
  from l discover_learns [of f c] have pid: "proxyByPID h (Connection.Pid c) = Some a"
    and len: "length (heap h) = length (heap f)" "length (heap (discover f c)) = length (heap f)"
    using Some by (simp_all add: learns_def)
  show ?thesis
  proof (cases "a < length (heap f) \<and> ip (heap h ! a) = []")
    case False
    then have "set_ip h a v = h" if "ip (heap h ! a) = []" for v
      using that len by (simp add: set_ip_same)
    then show ?thesis
      using pid by (simp add: discover_inferred split: option.splits)
  next
    case True
    with l len have hg: "heap h ! a = heap (discover f c) ! a"
      by (auto simp: learns_def)
    with True discover_learns [of f c] have gf: "heap (discover f c) ! a = heap f ! a"
      by (auto simp: learns_def)
    from True hg gf have u: "ip (heap f ! a) = []"
      by simp
    show ?thesis
    proof (cases "inferred (heap f ! a) c")
      case None
      with hg gf pid show ?thesis
        by (simp add: discover_inferred)
    next
      case (Some v)
      with \<open>proxyByPID f (Connection.Pid c) = Some a\<close> u
      have "discover f c = set_ip f a v"
        by (simp add: discover_inferred)
      with gf True have "(heap f ! a)\<lparr>ip := v\<rparr> = heap f ! a"
        by (simp add: set_ip_def)
      then have "ip (heap f ! a) = v"
        by (metis proxy.select_convs(2) proxy.surjective proxy.update_convs(2))
      with hg gf have "set_ip h a v = h"
        by (simp add: set_ip_same)
      with Some hg gf pid show ?thesis
        by (simp add: discover_inferred)
    qed
  qed
qed

lemma filterLoop_settled:
  "\<forall>c\<in>set cs. discover (fst (filterLoop f cs acc)) c = fst (filterLoop f cs acc)"
proof (induction cs arbitrary: f acc)
  case Nil
  show ?case by simp
next
  case (Cons c cs)
  have "discover (fst (filterLoop (discover f c) cs acc')) c = fst (filterLoop (discover f c) cs acc')"
    for acc'
    by (rule discover_again [OF filterLoop_learns])
  with Cons.IH [of "discover f c"] show ?case
    by (simp add: Let_def)
qed

lemma filterLoop_set: "set (snd (filterLoop f cs [])) \<subseteq> set cs"
  using filterLoop_subseq [of f cs] by (auto dest: list_emb_set)


lemma Filter_filterLoop:
  "Filter f payload =
     (fst (filterLoop f (Conns payload) []), payload\<lparr>Conns := snd (filterLoop f (Conns payload) [])\<rparr>)"
  by (simp add: Filter_def split: prod.splits)


text \<open>
  C3, as amended. Take a first application of \<^verbatim>\<open>Filter\<close> and a second one on its output,
  with the registry as the first left it. The second application leaves the registry
  unchanged, and its output is stable: a further application returns it unchanged. When
  the first application left the registry as it found it (it discovered no observed IP),
  the second returns the first's output unchanged.
\<close>

theorem Filter_twice:
  assumes 1: "Filter f payload = (f1, p1)" and 2: "Filter f1 p1 = (f2, p2)"
  shows "f2 = f1 \<and> Filter f1 p2 = (f1, p2) \<and> (f1 = f \<longrightarrow> p2 = p1)"
proof -
  let ?cs = "Conns payload"
  let ?keep = "\<lambda>g. filter (\<lambda>c. \<not> isProxied g c)"
  from 1 have f1: "f1 = fst (filterLoop f ?cs [])"
    and p1: "p1 = payload\<lparr>Conns := snd (filterLoop f ?cs [])\<rparr>"
    by (simp_all add: Filter_filterLoop)
  have settled: "\<forall>c\<in>set ?cs. discover f1 c = f1"
    unfolding f1 by (rule filterLoop_settled)
  have sub: "set (Conns p1) \<subseteq> set ?cs"
    using filterLoop_set [of f ?cs] by (simp add: p1)
  with settled have s1: "\<forall>c\<in>set (Conns p1). discover f1 c = f1"
    by blast
  have "Filter f1 p1 = (f1, p1\<lparr>Conns := ?keep f1 (Conns p1)\<rparr>)"
    using filterLoop_stable [OF s1, of "[]"] by (simp add: Filter_filterLoop)
  with 2 have f2: "f2 = f1" and p2: "p2 = p1\<lparr>Conns := ?keep f1 (Conns p1)\<rparr>"
    by auto
  from s1 have "\<forall>c\<in>set (Conns p2). discover f1 c = f1"
    by (simp add: p2)
  from filterLoop_stable [OF this, of "[]"] have 3: "Filter f1 p2 = (f1, p2)"
    by (simp add: Filter_filterLoop p2)
  have "p2 = p1" if "f1 = f"
  proof -
    from settled that have "\<forall>c\<in>set ?cs. discover f c = f"
      by simp
    from filterLoop_stable [OF this, of "[]"] have "Conns p1 = ?keep f ?cs"
      by (simp add: p1)
    then have "?keep f1 (Conns p1) = Conns p1"
      using that by simp
    then show ?thesis
      by (simp add: p2)
  qed
  with f2 3 show ?thesis
    by blast
qed

theorem Filter_twice_witness:
  "Filter ex_known \<lparr>Conns = [conn_a, conn_b, conn_c]\<rparr> = (ex_known, \<lparr>Conns = [conn_c]\<rparr>) \<and>
   Filter ex_known \<lparr>Conns = [conn_c]\<rparr> = (ex_known, \<lparr>Conns = [conn_c]\<rparr>)"
proof -
  have 1: "Filter ex_known \<lparr>Conns = [conn_a, conn_b, conn_c]\<rparr> = (ex_known, \<lparr>Conns = [conn_c]\<rparr>)"
    by (simp add: Filter_def discover_def isProxied_def example_defs)
  have 2: "Filter ex_known \<lparr>Conns = [conn_c]\<rparr> = (ex_known, \<lparr>Conns = [conn_c]\<rparr>)"
    by (simp add: Filter_def discover_def isProxied_def example_defs)
  from Filter_twice [OF 1 2] 1 show ?thesis
    by simp
qed

text \<open>
  The claim C3 as stated fails. The registry holds the proxy of pid 100 with its observed
  IP unknown. The first pass keeps \<open>conn_b\<close> (the IP is unknown when it is tested),
  then learns the IP 172.17.0.2 from \<open>conn_a\<close>; the second pass drops \<open>conn_b\<close>.
\<close>

theorem Filter_twice_counterexample:
  "Filter ex_unknown \<lparr>Conns = [conn_b, conn_a]\<rparr> = (ex_known, \<lparr>Conns = [conn_b]\<rparr>) \<and>
   Filter ex_known \<lparr>Conns = [conn_b]\<rparr> = (ex_known, \<lparr>Conns = []\<rparr>)"
  by (simp add: Filter_def discover_def discoverProxyIP_def isProxied_def Let_def
      example_defs detection_defs)












subsection \<open>Registries have no dangling pointer\<close>

lemma wf_emptyFilter: "wf_Filter emptyFilter"
  by (simp add: wf_Filter_def emptyFilter_def)

lemma wf_addProxy: "wf_Filter f \<Longrightarrow> wf_Filter (addProxy f px)"
  by (auto simp: wf_Filter_def addProxy_def less_Suc_eq)

lemma wf_LoadProxies: "wf_Filter f \<Longrightarrow> wf_Filter (LoadProxies f ps)"
  by (induction ps arbitrary: f) (auto simp: wf_addProxy split: option.splits)

lemma wf_learns: "learns f g \<Longrightarrow> wf_Filter f \<Longrightarrow> wf_Filter g"
  by (simp add: learns_def wf_Filter_def)

lemma wf_Filter_pass: "wf_Filter f \<Longrightarrow> wf_Filter (fst (Filter f payload))"
  using wf_learns [OF filterLoop_learns [of f "Conns payload" "[]"]]
  by (simp add: Filter_filterLoop)


end
